theory Spec2Isabelle
  imports Main "HOL-Library.Char_ord" "HOL-Library.List_Lexorder"
begin

section \<open>Keys, values and errors\<close>

text \<open>
  A Go \<^verbatim>\<open>string\<close> and a \<^verbatim>\<open>[]byte\<close> are byte sequences; the conversions
  \<^verbatim>\<open>[]byte(k)\<close> and \<^verbatim>\<open>string(b)\<close> copy the bytes unchanged. Go compares strings
  bytewise, which is the lexicographic order of \<open>char list\<close> over the order of
  \<open>char\<close> by code point.
\<close>

type_synonym key = string
type_synonym bytes = string

text \<open>
  Errors of the storage engine. The adapter names one of them,
  \<^verbatim>\<open>badger.ErrKeyNotFound\<close>; every other engine error is opaque to it.
  \<open>Wrapped\<close> is an error that wraps another one (\<^verbatim>\<open>fmt.Errorf("...%w", err)\<close>).
\<close>

datatype engine_error = ErrKeyNotFound | EngineError string | Wrapped string engine_error

text \<open>\<^verbatim>\<open>errors.Is(err, badger.ErrKeyNotFound)\<close>: follows the chain of wrapped errors.\<close>

fun errors_Is_ErrKeyNotFound :: "engine_error \<Rightarrow> bool" where
  "errors_Is_ErrKeyNotFound ErrKeyNotFound = True"
| "errors_Is_ErrKeyNotFound (EngineError m) = False"
| "errors_Is_ErrKeyNotFound (Wrapped m e) = errors_Is_ErrKeyNotFound e"

text \<open>
  What a call of the adapter can end with, other than success:
  \<^item> \<open>ErrTxDone\<close> is \<^verbatim>\<open>sql.ErrTxDone\<close> (the spec's Done),
  \<^item> \<open>ErrNotExist\<close> is \<^verbatim>\<open>os.ErrNotExist\<close> (the spec's NotFound),
  \<^item> \<open>ErrInvalid\<close> is \<^verbatim>\<open>os.ErrInvalid\<close> (the spec's InvalidArgument),
  \<^item> \<open>Engine e\<close> is the engine's error \<open>e\<close> returned unchanged,
  \<^item> \<open>ReadError m\<close> is the error of the caller's value stream, returned unchanged,
  \<^item> \<open>Panic m\<close> is a run-time panic: the call does not return.
\<close>

datatype error = ErrTxDone | ErrNotExist | ErrInvalid
  | Engine engine_error | ReadError string | Panic string

text \<open>
  An \<^verbatim>\<open>io.Reader\<close>: the nil interface value, or a stream that delivers its bytes and
  then ends, with EOF (\<open>None\<close>) or with an error.
\<close>

datatype reader = NilReader | Reader bytes "string option"

text \<open>
  \<^verbatim>\<open>io.ReadAll(r)\<close> calls \<^verbatim>\<open>r.Read\<close> until EOF or an error. On the nil interface the
  method call is a nil dereference.
\<close>

fun io_ReadAll :: "reader \<Rightarrow> error + bytes" where
  "io_ReadAll NilReader = Inl (Panic ''nil pointer dereference'')"
| "io_ReadAll (Reader data None) = Inr data"
| "io_ReadAll (Reader data (Some m)) = Inl (ReadError m)"

definition bytes_NewReader :: "bytes \<Rightarrow> reader" where
  "bytes_NewReader v = Reader v None"

section \<open>The storage engine, as the adapter uses it\<close>

text \<open>
  An entry of the engine (\<^verbatim>\<open>badger.Item\<close>): its key, and what reading its value gives.
\<close>

record item =
  KeyCopy :: key
  ValueCopy :: "engine_error + bytes"

text \<open>
  The engine is not part of the repository. It is a parameter of the model: a state
  \<open>'w\<close> of the whole engine, transactions named by numbers (the pointer
  \<^verbatim>\<open>*badger.Txn\<close>), and the operations the adapter calls on them.
  \<open>badger_NewIterator\<close> gives the entries visible to the transaction in increasing
  key order, or \<open>None\<close> when the engine panics instead of returning a cursor.
\<close>

record 'w engine =
  badger_NewTransaction :: "'w \<Rightarrow> bool \<Rightarrow> nat \<times> 'w"
  badger_Get :: "'w \<Rightarrow> nat \<Rightarrow> key \<Rightarrow> engine_error + item"
  badger_Set :: "'w \<Rightarrow> nat \<Rightarrow> key \<Rightarrow> bytes \<Rightarrow> engine_error option \<times> 'w"
  badger_Delete :: "'w \<Rightarrow> nat \<Rightarrow> key \<Rightarrow> engine_error option \<times> 'w"
  badger_Commit :: "'w \<Rightarrow> nat \<Rightarrow> engine_error option \<times> 'w"
  badger_Discard :: "'w \<Rightarrow> nat \<Rightarrow> 'w"
  badger_NewIterator :: "'w \<Rightarrow> nat \<Rightarrow> item list option"

subsection \<open>The engine's cursor\<close>

text \<open>
  Modelled from the spec: the engine's cursor (\<^verbatim>\<open>badger.Iterator\<close>), which the
  repository uses and does not define. It is the ordered cursor with seek-to-key and
  reverse iteration of the spec's collaborator contract: \<open>Rewind\<close> goes to the first
  entry in the direction of iteration (the smallest key, or the largest when reversed);
  \<open>Seek k\<close> goes to \<open>k\<close> if present, and otherwise to the next entry in the direction
  of iteration (the first key above \<open>k\<close>, or the first key below \<open>k\<close> when reversed).
  \<open>it_pos\<close> holds the entries from the cursor's position on, in the direction of
  iteration.
\<close>

record Iterator =
  it_items :: "item list"
  Reverse :: bool
  it_pos :: "item list"

definition NewIterator :: "'w engine \<Rightarrow> 'w \<Rightarrow> nat \<Rightarrow> bool \<Rightarrow> Iterator option" where
  "NewIterator E w tx rev_opt =
     map_option (\<lambda>xs. \<lparr>it_items = xs, Reverse = rev_opt, it_pos = []\<rparr>) (badger_NewIterator E w tx)"

definition Rewind :: "Iterator \<Rightarrow> Iterator" where
  "Rewind it = it\<lparr>it_pos := (if Reverse it then rev (it_items it) else it_items it)\<rparr>"

definition Seek :: "Iterator \<Rightarrow> key \<Rightarrow> Iterator" where
  "Seek it k = it\<lparr>it_pos :=
     (if Reverse it then dropWhile (\<lambda>i. k < KeyCopy i) (rev (it_items it))
      else dropWhile (\<lambda>i. KeyCopy i < k) (it_items it))\<rparr>"

definition Valid :: "Iterator \<Rightarrow> bool" where
  "Valid it = (it_pos it \<noteq> [])"

text \<open>\<^verbatim>\<open>it.Item()\<close>; the adapter calls it only on a valid cursor.\<close>

definition Item :: "Iterator \<Rightarrow> item" where
  "Item it = hd (it_pos it)"

definition Next :: "Iterator \<Rightarrow> Iterator" where
  "Next it = it\<lparr>it_pos := tl (it_pos it)\<rparr>"

section \<open>The adapter\<close>

text \<open>\<^verbatim>\<open>type Database struct { db *badger.DB }\<close>: a reference to the engine.\<close>

datatype Database = Database (bdb: nat)

definition New :: "nat \<Rightarrow> Database" where
  "New b = Database b"

text \<open>
  \<^verbatim>\<open>type txn struct { db *Database; tx *badger.Txn }\<close>. The field \<open>db\<close> is nil once
  the handle is finished. No method uses its context argument, which the model leaves
  out.
\<close>

record txn =
  db :: "Database option"
  tx :: nat

text \<open>\<open>Transaction\<close> and \<open>Snapshot\<close> embed \<^verbatim>\<open>*txn\<close>, whose methods they promote.\<close>

datatype Transaction = Transaction (Transaction_txn: txn)
datatype Snapshot = Snapshot (Snapshot_txn: txn)

definition Database_NewTransaction :: "'w engine \<Rightarrow> Database \<Rightarrow> 'w \<Rightarrow> Transaction \<times> 'w" where
  "Database_NewTransaction E d w =
     (case badger_NewTransaction E w True of
        (x, w') \<Rightarrow> (Transaction \<lparr>db = Some d, tx = x\<rparr>, w'))"

definition Database_NewSnapshot :: "'w engine \<Rightarrow> Database \<Rightarrow> 'w \<Rightarrow> Snapshot \<times> 'w" where
  "Database_NewSnapshot E d w =
     (case badger_NewTransaction E w False of
        (x, w') \<Rightarrow> (Snapshot \<lparr>db = Some d, tx = x\<rparr>, w'))"

definition txn_Commit :: "'w engine \<Rightarrow> txn \<Rightarrow> 'w \<Rightarrow> error option \<times> txn \<times> 'w" where
  "txn_Commit E t w =
     (if db t = None then (Some ErrTxDone, t, w)
      else (case badger_Commit E w (tx t) of
              (r, w') \<Rightarrow> (map_option Engine r, t\<lparr>db := None\<rparr>, w')))"

definition txn_discard :: "'w engine \<Rightarrow> txn \<Rightarrow> 'w \<Rightarrow> error option \<times> txn \<times> 'w" where
  "txn_discard E t w =
     (if db t = None then (Some ErrTxDone, t, w)
      else (None, t\<lparr>db := None\<rparr>, badger_Discard E w (tx t)))"

definition Transaction_Rollback ::
  "'w engine \<Rightarrow> Transaction \<Rightarrow> 'w \<Rightarrow> error option \<times> Transaction \<times> 'w" where
  "Transaction_Rollback E h w =
     (case txn_discard E (Transaction_txn h) w of (r, t', w') \<Rightarrow> (r, Transaction t', w'))"

definition Snapshot_Discard ::
  "'w engine \<Rightarrow> Snapshot \<Rightarrow> 'w \<Rightarrow> error option \<times> Snapshot \<times> 'w" where
  "Snapshot_Discard E h w =
     (case txn_discard E (Snapshot_txn h) w of (r, t', w') \<Rightarrow> (r, Snapshot t', w'))"

definition txn_Get :: "'w engine \<Rightarrow> txn \<Rightarrow> 'w \<Rightarrow> key \<Rightarrow> error + reader" where
  "txn_Get E t w k =
     (case badger_Get E w (tx t) k of
        Inl err \<Rightarrow> (if errors_Is_ErrKeyNotFound err then Inl ErrNotExist else Inl (Engine err))
      | Inr i \<Rightarrow> (case ValueCopy i of
                   Inl err \<Rightarrow> Inl (Engine err)
                 | Inr v \<Rightarrow> Inr (bytes_NewReader v)))"

definition txn_Set :: "'w engine \<Rightarrow> txn \<Rightarrow> 'w \<Rightarrow> key \<Rightarrow> reader \<Rightarrow> error option \<times> 'w" where
  "txn_Set E t w k v =
     (if db t = None then (Some ErrTxDone, w)
      else (case io_ReadAll v of
              Inl err \<Rightarrow> (Some err, w)
            | Inr data \<Rightarrow> (case badger_Set E w (tx t) k data of
                            (r, w') \<Rightarrow> (map_option Engine r, w'))))"

definition txn_Delete :: "'w engine \<Rightarrow> txn \<Rightarrow> 'w \<Rightarrow> key \<Rightarrow> error option \<times> 'w" where
  "txn_Delete E t w k =
     (if db t = None then (Some ErrTxDone, w)
      else (case badger_Delete E w (tx t) k of
              (Some err, w') \<Rightarrow>
                (if errors_Is_ErrKeyNotFound err then (Some ErrNotExist, w')
                 else (Some (Engine err), w'))
            | (None, w') \<Rightarrow> (None, w')))"

subsection \<open>Iteration\<close>

text \<open>
  An \<^verbatim>\<open>iter.Seq2[string, io.Reader]\<close> is a function that takes the consumer's
  \<open>yield\<close> and calls it once per pair, until \<open>yield\<close> returns false. The consumer is a
  function on its own state \<open>'s\<close>. The result is what the call stored in \<^verbatim>\<open>*errp\<close>
  (\<open>None\<close> when it stored nothing) and the consumer's final state.

  A sequence is lazy: \<open>txn_Ascend E t w beg end_k\<close> is the sequence that the call
  returns, and applying it to \<open>yield\<close> and \<open>s\<close> runs it; \<open>w\<close> is the engine's state
  when it runs. The deferred \<^verbatim>\<open>it.Close()\<close> releases the cursor and changes nothing
  that the adapter returns; the model leaves it out.

  The three loops are \<^verbatim>\<open>for ...; it.Valid(); it.Next()\<close>; each terminates because
  \<open>Next\<close> shortens what is left of the cursor.
\<close>

function scan_loop ::
  "(key \<Rightarrow> reader \<Rightarrow> 's \<Rightarrow> bool \<times> 's) \<Rightarrow> Iterator \<Rightarrow> 's \<Rightarrow> error option \<times> 's" where
  "scan_loop yield it s =
     (if \<not> Valid it then (None, s)
      else (case ValueCopy (Item it) of
              Inl err \<Rightarrow> (Some (Engine err), s)
            | Inr data \<Rightarrow>
                (case yield (KeyCopy (Item it)) (bytes_NewReader data) s of
                   (False, s') \<Rightarrow> (None, s')
                 | (True, s') \<Rightarrow> scan_loop yield (Next it) s')))"
  by pat_completeness auto
termination
  by (relation "measure (\<lambda>(yield, it, s). length (it_pos it))")
     (auto simp: Valid_def Next_def)

function ascend_loop ::
  "(key \<Rightarrow> reader \<Rightarrow> 's \<Rightarrow> bool \<times> 's) \<Rightarrow> key \<Rightarrow> Iterator \<Rightarrow> 's \<Rightarrow> error option \<times> 's" where
  "ascend_loop yield end_k it s =
     (if \<not> Valid it then (None, s)
      else if end_k \<noteq> [] \<and> KeyCopy (Item it) \<ge> end_k then (None, s)
      else (case ValueCopy (Item it) of
              Inl err \<Rightarrow> (Some (Engine err), s)
            | Inr data \<Rightarrow>
                (case yield (KeyCopy (Item it)) (bytes_NewReader data) s of
                   (False, s') \<Rightarrow> (None, s')
                 | (True, s') \<Rightarrow> ascend_loop yield end_k (Next it) s')))"
  by pat_completeness auto
termination
  by (relation "measure (\<lambda>(yield, end_k, it, s). length (it_pos it))")
     (auto simp: Valid_def Next_def)

text \<open>In \<open>descend_loop\<close> the \<^verbatim>\<open>continue\<close> on a key equal to \<open>end\<close> runs \<^verbatim>\<open>it.Next()\<close>.\<close>

function descend_loop ::
  "(key \<Rightarrow> reader \<Rightarrow> 's \<Rightarrow> bool \<times> 's) \<Rightarrow> key \<Rightarrow> key \<Rightarrow> Iterator \<Rightarrow> 's
     \<Rightarrow> error option \<times> 's" where
  "descend_loop yield beg end_k it s =
     (if \<not> Valid it then (None, s)
      else if end_k \<noteq> [] \<and> KeyCopy (Item it) = end_k
        then descend_loop yield beg end_k (Next it) s
      else if beg \<noteq> [] \<and> KeyCopy (Item it) < beg then (None, s)
      else (case ValueCopy (Item it) of
              Inl err \<Rightarrow> (Some (Engine err), s)
            | Inr data \<Rightarrow>
                (case yield (KeyCopy (Item it)) (bytes_NewReader data) s of
                   (False, s') \<Rightarrow> (None, s')
                 | (True, s') \<Rightarrow> descend_loop yield beg end_k (Next it) s')))"
  by pat_completeness auto
termination
  by (relation "measure (\<lambda>(yield, beg, end_k, it, s). length (it_pos it))")
     (auto simp: Valid_def Next_def)

declare scan_loop.simps [simp del] ascend_loop.simps [simp del] descend_loop.simps [simp del]

definition txn_Scan ::
  "'w engine \<Rightarrow> txn \<Rightarrow> 'w \<Rightarrow> (key \<Rightarrow> reader \<Rightarrow> 's \<Rightarrow> bool \<times> 's) \<Rightarrow> 's \<Rightarrow> error option \<times> 's" where
  "txn_Scan E t w yield s =
     (case NewIterator E w (tx t) False of
        None \<Rightarrow> (Some (Panic ''NewIterator''), s)
      | Some it \<Rightarrow> scan_loop yield (Rewind it) s)"

definition txn_Ascend ::
  "'w engine \<Rightarrow> txn \<Rightarrow> 'w \<Rightarrow> key \<Rightarrow> key \<Rightarrow> (key \<Rightarrow> reader \<Rightarrow> 's \<Rightarrow> bool \<times> 's) \<Rightarrow> 's
     \<Rightarrow> error option \<times> 's" where
  "txn_Ascend E t w beg end_k yield s =
     (if beg > end_k \<and> end_k \<noteq> [] then (Some ErrInvalid, s)
      else (case NewIterator E w (tx t) False of
              None \<Rightarrow> (Some (Panic ''NewIterator''), s)
            | Some it \<Rightarrow>
                (let it1 = Rewind it;
                     it2 = (if beg \<noteq> [] then Seek it1 beg else it1)
                 in ascend_loop yield end_k it2 s)))"

definition txn_Descend ::
  "'w engine \<Rightarrow> txn \<Rightarrow> 'w \<Rightarrow> key \<Rightarrow> key \<Rightarrow> (key \<Rightarrow> reader \<Rightarrow> 's \<Rightarrow> bool \<times> 's) \<Rightarrow> 's
     \<Rightarrow> error option \<times> 's" where
  "txn_Descend E t w beg end_k yield s =
     (if beg > end_k \<and> end_k \<noteq> [] then (Some ErrInvalid, s)
      else (case NewIterator E w (tx t) True of
              None \<Rightarrow> (Some (Panic ''NewIterator''), s)
            | Some it \<Rightarrow>
                (let it1 = Rewind it;
                     it2 = (if end_k \<noteq> [] then Seek it1 end_k else it1)
                 in descend_loop yield beg end_k it2 s)))"

text \<open>The consumer that takes every pair and keeps them in the order of arrival.\<close>

definition collect :: "key \<Rightarrow> reader \<Rightarrow> (key \<times> reader) list \<Rightarrow> bool \<times> (key \<times> reader) list" where
  "collect k r acc = (True, acc @ [(k, r)])"

text \<open>
  The entries of a set of stored pairs, every value readable: what the engine's cursor
  runs over when the transaction sees exactly these pairs.
\<close>

definition stored :: "(key \<times> bytes) list \<Rightarrow> item list" where
  "stored kvs = map (\<lambda>(k, v). \<lparr>KeyCopy = k, ValueCopy = Inr v\<rparr>) kvs"

text \<open>
  The spec's half-open range \<open>[begin, end)\<close>, in the spec's words: an empty \<open>begin\<close>
  is "from the smallest key", an empty \<open>end\<close> is "no upper bound".
\<close>

definition in_range :: "key \<Rightarrow> key \<Rightarrow> key \<Rightarrow> bool" where
  "in_range beg end_k k = ((beg = [] \<or> beg \<le> k) \<and> (end_k = [] \<or> k < end_k))"

section \<open>A reference engine\<close>

text \<open>
  Modelled from the spec: a storage engine that meets the collaborator contract of the
  spec (read-only and read-write transactions over a point-in-time view, get, set and
  delete by key with a not-found signal, ordered entries for the cursor, commit,
  discard). The engine itself is outside the repository; this one is small enough to
  run, and the model uses it only to evaluate the adapter on concrete inputs. A
  transaction works on its own copy of the committed pairs, taken when it is opened,
  and records its writes; commit replays the writes on the committed pairs. Conflict
  detection between concurrent transactions is left out. Like the engine the adapter
  is written for, it refuses an empty key, a write in a read-only transaction and any
  use of a finished transaction with errors of its own, never reports a missing key
  on delete, and panics when a cursor is asked of a finished transaction.
\<close>

record ref_txn =
  rt_update :: bool
  rt_finished :: bool
  rt_working :: "(key \<times> bytes) list"
  rt_writes :: "(key \<times> bytes option) list"

record ref_world =
  rw_store :: "(key \<times> bytes) list"
  rw_txns :: "ref_txn list"

fun upsert :: "key \<Rightarrow> bytes \<Rightarrow> (key \<times> bytes) list \<Rightarrow> (key \<times> bytes) list" where
  "upsert k v [] = [(k, v)]"
| "upsert k v ((k', v') # xs) =
     (if k < k' then (k, v) # (k', v') # xs
      else if k = k' then (k, v) # xs
      else (k', v') # upsert k v xs)"

definition remove_key :: "key \<Rightarrow> (key \<times> bytes) list \<Rightarrow> (key \<times> bytes) list" where
  "remove_key k xs = filter (\<lambda>(k', v'). k' \<noteq> k) xs"

fun apply_write :: "key \<times> bytes option \<Rightarrow> (key \<times> bytes) list \<Rightarrow> (key \<times> bytes) list" where
  "apply_write (k, Some v) xs = upsert k v xs"
| "apply_write (k, None) xs = remove_key k xs"

definition ErrDiscardedTxn :: engine_error where
  "ErrDiscardedTxn = EngineError ''This transaction has been discarded. Create a new one''"

definition ErrEmptyKey :: engine_error where
  "ErrEmptyKey = EngineError ''Key cannot be empty''"

definition ErrReadOnlyTxn :: engine_error where
  "ErrReadOnlyTxn = EngineError ''No sets or deletes are allowed in a read-only transaction''"

definition ErrNoTxn :: engine_error where
  "ErrNoTxn = EngineError ''no such transaction''"

definition ref_NewTransaction :: "ref_world \<Rightarrow> bool \<Rightarrow> nat \<times> ref_world" where
  "ref_NewTransaction w u =
     (length (rw_txns w),
      w\<lparr>rw_txns := rw_txns w @
         [\<lparr>rt_update = u, rt_finished = False, rt_working = rw_store w, rt_writes = []\<rparr>]\<rparr>)"

definition ref_Get :: "ref_world \<Rightarrow> nat \<Rightarrow> key \<Rightarrow> engine_error + item" where
  "ref_Get w x k =
     (if length (rw_txns w) \<le> x then Inl ErrNoTxn
      else if rt_finished (rw_txns w ! x) then Inl ErrDiscardedTxn
      else if k = [] then Inl ErrEmptyKey
      else (case map_of (rt_working (rw_txns w ! x)) k of
              None \<Rightarrow> Inl ErrKeyNotFound
            | Some v \<Rightarrow> Inr \<lparr>KeyCopy = k, ValueCopy = Inr v\<rparr>))"

definition ref_modify ::
  "ref_world \<Rightarrow> nat \<Rightarrow> key \<Rightarrow> bytes option \<Rightarrow> engine_error option \<times> ref_world" where
  "ref_modify w x k ov =
     (if length (rw_txns w) \<le> x then (Some ErrNoTxn, w)
      else if \<not> rt_update (rw_txns w ! x) then (Some ErrReadOnlyTxn, w)
      else if rt_finished (rw_txns w ! x) then (Some ErrDiscardedTxn, w)
      else if k = [] then (Some ErrEmptyKey, w)
      else (None, w\<lparr>rw_txns := (rw_txns w)[x := (rw_txns w ! x)
              \<lparr>rt_working := apply_write (k, ov) (rt_working (rw_txns w ! x)),
               rt_writes := rt_writes (rw_txns w ! x) @ [(k, ov)]\<rparr>]\<rparr>))"

definition ref_Set :: "ref_world \<Rightarrow> nat \<Rightarrow> key \<Rightarrow> bytes \<Rightarrow> engine_error option \<times> ref_world" where
  "ref_Set w x k v = ref_modify w x k (Some v)"

definition ref_Delete :: "ref_world \<Rightarrow> nat \<Rightarrow> key \<Rightarrow> engine_error option \<times> ref_world" where
  "ref_Delete w x k = ref_modify w x k None"

definition ref_Commit :: "ref_world \<Rightarrow> nat \<Rightarrow> engine_error option \<times> ref_world" where
  "ref_Commit w x =
     (if length (rw_txns w) \<le> x then (Some ErrNoTxn, w)
      else if rt_finished (rw_txns w ! x) then (Some ErrDiscardedTxn, w)
      else (None, w\<lparr>rw_store := fold apply_write (rt_writes (rw_txns w ! x)) (rw_store w),
                     rw_txns := (rw_txns w)[x := (rw_txns w ! x)\<lparr>rt_finished := True\<rparr>]\<rparr>))"

definition ref_Discard :: "ref_world \<Rightarrow> nat \<Rightarrow> ref_world" where
  "ref_Discard w x =
     (if length (rw_txns w) \<le> x then w
      else w\<lparr>rw_txns := (rw_txns w)[x := (rw_txns w ! x)\<lparr>rt_finished := True\<rparr>]\<rparr>)"

definition ref_NewIterator :: "ref_world \<Rightarrow> nat \<Rightarrow> item list option" where
  "ref_NewIterator w x =
     (if length (rw_txns w) \<le> x \<or> rt_finished (rw_txns w ! x) then None
      else Some (stored (rt_working (rw_txns w ! x))))"

definition ref_engine :: "ref_world engine" where
  "ref_engine =
     \<lparr>badger_NewTransaction = ref_NewTransaction,
      badger_Get = ref_Get,
      badger_Set = ref_Set,
      badger_Delete = ref_Delete,
      badger_Commit = ref_Commit,
      badger_Discard = ref_Discard,
      badger_NewIterator = ref_NewIterator\<rparr>"

text \<open>The engine holding the committed pairs \<open>kvs\<close>, with no transaction open.\<close>

definition ref_open :: "(key \<times> bytes) list \<Rightarrow> ref_world" where
  "ref_open kvs = \<lparr>rw_store = kvs, rw_txns = []\<rparr>"

text \<open>
  The engine's side of read-your-writes, which the spec asks of the collaborator: a
  value that a transaction has set is the value the same transaction reads back.
\<close>

definition read_your_writes :: "'w engine \<Rightarrow> bool" where
  "read_your_writes E =
     (\<forall>w x k data w'. badger_Set E w x k data = (None, w') \<longrightarrow>
        (\<exists>i. badger_Get E w' x k = Inr i \<and> ValueCopy i = Inr data))"

text \<open>What the consumer receives for stored pairs: each value as a fresh reader.\<close>

definition pairs :: "(key \<times> bytes) list \<Rightarrow> (key \<times> reader) list" where
  "pairs kvs = map (\<lambda>(k, v). (k, bytes_NewReader v)) kvs"

subsection \<open>A concrete run\<close>

text \<open>
  The spec's example: the keys \<open>a\<close> to \<open>e\<close> are committed, and then a read-write
  transaction and a snapshot are opened through the adapter.
\<close>

definition demo_kvs :: "(key \<times> bytes) list" where
  "demo_kvs = [(''a'', ''1''), (''b'', ''2''), (''c'', ''3''), (''d'', ''4''), (''e'', ''5'')]"

definition demo_db :: Database where
  "demo_db = Database 0"

definition demo_begin :: "Transaction \<times> ref_world" where
  "demo_begin = Database_NewTransaction ref_engine demo_db (ref_open demo_kvs)"

definition demo_snapshot :: "Snapshot \<times> ref_world" where
  "demo_snapshot = Database_NewSnapshot ref_engine demo_db (ref_open demo_kvs)"

text \<open>The transaction of \<open>demo_begin\<close> after \<open>Rollback\<close>.\<close>

definition demo_rolled_back :: "error option \<times> Transaction \<times> ref_world" where
  "demo_rolled_back = Transaction_Rollback ref_engine (fst demo_begin) (snd demo_begin)"

section \<open>Properties\<close>

subsection \<open>Cursors over sorted entries\<close>

lemma sorted_wrt_takeWhile_filter:
  "sorted_wrt R xs \<Longrightarrow> (\<And>x y. R x y \<Longrightarrow> P y \<Longrightarrow> P x) \<Longrightarrow> takeWhile P xs = filter P xs"
proof (induction xs)
  case Nil
  then show ?case by simp
next
  case (Cons a xs)
  show ?case
  proof (cases "P a")
    case True
    with Cons show ?thesis by simp
  next
    case False
    have "\<not> P y" if "y \<in> set xs" for y
      using Cons.prems that False by auto
    then have "filter P xs = []" by (simp add: filter_empty_conv)
    with False show ?thesis by simp
  qed
qed

lemma sorted_wrt_dropWhile_filter:
  "sorted_wrt R xs \<Longrightarrow> (\<And>x y. R x y \<Longrightarrow> P y \<Longrightarrow> P x) \<Longrightarrow>
     dropWhile P xs = filter (\<lambda>x. \<not> P x) xs"
proof (induction xs)
  case Nil
  then show ?case by simp
next
  case (Cons a xs)
  show ?case
  proof (cases "P a")
    case True
    with Cons show ?thesis by simp
  next
    case False
    have "\<not> P y" if "y \<in> set xs" for y
      using Cons.prems that False by auto
    then have "filter (\<lambda>x. \<not> P x) xs = xs" by (simp add: filter_id_conv)
    with False show ?thesis by simp
  qed
qed

lemma stored_dropWhile:
  "dropWhile (\<lambda>i. P (KeyCopy i)) (stored ys) = stored (dropWhile (\<lambda>(k, v). P k) ys)"
  by (induction ys) (auto simp: stored_def)

lemma stored_rev: "rev (stored ys) = stored (rev ys)"
  by (simp add: stored_def rev_map)

subsection \<open>The loops, run to the end by a consumer that never stops\<close>

lemma scan_loop_collect:
  "it_pos it = stored ys \<Longrightarrow> scan_loop collect it acc = (None, acc @ pairs ys)"
proof (induction ys arbitrary: it acc)
  case Nil
  then show ?case
    by (subst scan_loop.simps) (simp add: Valid_def stored_def pairs_def)
next
  case (Cons a ys)
  obtain k v where a: "a = (k, v)" by (cases a)
  have pos: "it_pos (Next it) = stored ys"
    using Cons.prems by (simp add: Next_def stored_def)
  have step: "scan_loop collect it acc =
      scan_loop collect (Next it) (acc @ [(k, bytes_NewReader v)])"
    using Cons.prems
    by (subst scan_loop.simps) (simp add: a Valid_def Item_def stored_def collect_def)
  show ?case
    unfolding step Cons.IH [OF pos] by (simp add: a pairs_def)
qed

lemma ascend_loop_collect:
  "it_pos it = stored ys \<Longrightarrow>
   ascend_loop collect e it acc =
     (None, acc @ pairs (takeWhile (\<lambda>(k, v). \<not> (e \<noteq> [] \<and> e \<le> k)) ys))"
proof (induction ys arbitrary: it acc)
  case Nil
  then show ?case
    by (subst ascend_loop.simps) (simp add: Valid_def stored_def pairs_def)
next
  case (Cons a ys)
  obtain k v where a: "a = (k, v)" by (cases a)
  have pos: "it_pos (Next it) = stored ys"
    using Cons.prems by (simp add: Next_def stored_def)
  have step: "ascend_loop collect e it acc =
      (if e \<noteq> [] \<and> e \<le> k then (None, acc)
       else ascend_loop collect e (Next it) (acc @ [(k, bytes_NewReader v)]))"
    using Cons.prems
    by (subst ascend_loop.simps) (simp add: a Valid_def Item_def stored_def collect_def)
  show ?case
    unfolding step Cons.IH [OF pos] by (simp add: a pairs_def)
qed

lemma descend_loop_collect:
  "it_pos it = stored ys \<Longrightarrow>
   descend_loop collect b e it acc =
     (None, acc @ pairs (filter (\<lambda>(k, v). \<not> (e \<noteq> [] \<and> k = e))
        (takeWhile (\<lambda>(k, v). (e \<noteq> [] \<and> k = e) \<or> \<not> (b \<noteq> [] \<and> k < b)) ys)))"
proof (induction ys arbitrary: it acc)
  case Nil
  then show ?case
    by (subst descend_loop.simps) (simp add: Valid_def stored_def pairs_def)
next
  case (Cons a ys)
  obtain k v where a: "a = (k, v)" by (cases a)
  have pos: "it_pos (Next it) = stored ys"
    using Cons.prems by (simp add: Next_def stored_def)
  have step: "descend_loop collect b e it acc =
      (if e \<noteq> [] \<and> k = e then descend_loop collect b e (Next it) acc
       else if b \<noteq> [] \<and> k < b then (None, acc)
       else descend_loop collect b e (Next it) (acc @ [(k, bytes_NewReader v)]))"
    using Cons.prems
    by (subst descend_loop.simps) (simp add: a Valid_def Item_def stored_def collect_def)
  show ?case
    unfolding step Cons.IH [OF pos] by (simp add: a pairs_def)
qed

text \<open>
  \<open>Ascend\<close> on a valid range: seek to the first key not below \<open>begin\<close>, then take
  entries up to the first key not below \<open>end\<close>. No order of the entries is assumed.
\<close>

lemma txn_Ascend_collect:
  assumes "badger_NewIterator E w (tx t) = Some (stored kvs)"
      and "\<not> (beg > end_k \<and> end_k \<noteq> [])"
  shows "txn_Ascend E t w beg end_k collect [] =
     (None, pairs (takeWhile (\<lambda>(k, v). \<not> (end_k \<noteq> [] \<and> end_k \<le> k))
        (if beg \<noteq> [] then dropWhile (\<lambda>(k, v). k < beg) kvs else kvs)))"
proof -
  let ?it = "\<lparr>it_items = stored kvs, Reverse = False, it_pos = []\<rparr>"
  let ?it2 = "if beg \<noteq> [] then Seek (Rewind ?it) beg else Rewind ?it"
  have pos: "it_pos ?it2 =
      stored (if beg \<noteq> [] then dropWhile (\<lambda>(k, v). k < beg) kvs else kvs)"
    by (simp add: Seek_def Rewind_def stored_dropWhile [of "\<lambda>k. k < beg"])
  have "txn_Ascend E t w beg end_k collect [] = ascend_loop collect end_k ?it2 []"
    by (simp only: txn_Ascend_def if_not_P [OF assms(2)])
       (simp add: NewIterator_def assms(1) Let_def)
  then show ?thesis
    by (simp only: ascend_loop_collect [OF pos] append_Nil)
qed

text \<open>
  \<open>Descend\<close> on a valid range: seek backwards to the last key not above \<open>end\<close>, skip
  a key equal to \<open>end\<close>, and take entries down to the first key below \<open>begin\<close>.
\<close>

lemma txn_Descend_collect:
  assumes "badger_NewIterator E w (tx t) = Some (stored kvs)"
      and "\<not> (beg > end_k \<and> end_k \<noteq> [])"
  shows "txn_Descend E t w beg end_k collect [] =
     (None, pairs (filter (\<lambda>(k, v). \<not> (end_k \<noteq> [] \<and> k = end_k))
        (takeWhile (\<lambda>(k, v). (end_k \<noteq> [] \<and> k = end_k) \<or> \<not> (beg \<noteq> [] \<and> k < beg))
           (if end_k \<noteq> [] then dropWhile (\<lambda>(k, v). end_k < k) (rev kvs) else rev kvs))))"
proof -
  let ?it = "\<lparr>it_items = stored kvs, Reverse = True, it_pos = []\<rparr>"
  let ?it2 = "if end_k \<noteq> [] then Seek (Rewind ?it) end_k else Rewind ?it"
  have pos: "it_pos ?it2 =
      stored (if end_k \<noteq> [] then dropWhile (\<lambda>(k, v). end_k < k) (rev kvs) else rev kvs)"
    by (simp add: Seek_def Rewind_def stored_rev stored_dropWhile [of "\<lambda>k. end_k < k"])
  have "txn_Descend E t w beg end_k collect [] = descend_loop collect beg end_k ?it2 []"
    by (simp only: txn_Descend_def if_not_P [OF assms(2)])
       (simp add: NewIterator_def assms(1) Let_def)
  then show ?thesis
    by (simp only: descend_loop_collect [OF pos] append_Nil)
qed

text \<open>On entries in strictly increasing key order, both walks are the range filter.\<close>

lemma ascend_range:
  assumes "sorted_wrt (<) (map fst kvs)" and "\<not> (beg > end_k \<and> end_k \<noteq> [])"
  shows "takeWhile (\<lambda>(k, v). \<not> (end_k \<noteq> [] \<and> end_k \<le> k))
        (if beg \<noteq> [] then dropWhile (\<lambda>(k, v). k < beg) kvs else kvs)
       = filter (\<lambda>(k, v). in_range beg end_k k) (kvs :: (key \<times> bytes) list)"
proof -
  let ?R = "\<lambda>x y :: key \<times> bytes. fst x < fst y"
  let ?D = "\<lambda>(k :: key, v :: bytes). k < beg"
  let ?T = "\<lambda>(k :: key, v :: bytes). \<not> (end_k \<noteq> [] \<and> end_k \<le> k)"
  have s: "sorted_wrt ?R kvs"
    using assms(1) by (simp add: sorted_wrt_map)
  have d: "dropWhile ?D kvs = filter (\<lambda>x. \<not> ?D x) kvs"
    by (rule sorted_wrt_dropWhile_filter [OF s]) auto
  have s': "sorted_wrt ?R (if beg \<noteq> [] then filter (\<lambda>x. \<not> ?D x) kvs else kvs)"
    using s by (simp add: sorted_wrt_filter)
  have "takeWhile ?T (if beg \<noteq> [] then dropWhile ?D kvs else kvs)
      = filter ?T (if beg \<noteq> [] then filter (\<lambda>x. \<not> ?D x) kvs else kvs)"
    unfolding d by (rule sorted_wrt_takeWhile_filter [OF s']) auto
  also have "\<dots> = filter (\<lambda>(k, v). in_range beg end_k k) kvs"
    by (auto simp: in_range_def intro!: filter_cong)
  finally show ?thesis .
qed

lemma descend_range:
  assumes "sorted_wrt (<) (map fst kvs)" and "\<not> (beg > end_k \<and> end_k \<noteq> [])"
  shows "filter (\<lambda>(k, v). \<not> (end_k \<noteq> [] \<and> k = end_k))
        (takeWhile (\<lambda>(k, v). (end_k \<noteq> [] \<and> k = end_k) \<or> \<not> (beg \<noteq> [] \<and> k < beg))
           (if end_k \<noteq> [] then dropWhile (\<lambda>(k, v). end_k < k) (rev kvs) else rev kvs))
       = rev (filter (\<lambda>(k, v). in_range beg end_k k) (kvs :: (key \<times> bytes) list))"
proof -
  let ?R = "\<lambda>x y :: key \<times> bytes. fst y < fst x"
  let ?D = "\<lambda>(k :: key, v :: bytes). end_k < k"
  let ?T = "\<lambda>(k :: key, v :: bytes).
              (end_k \<noteq> [] \<and> k = end_k) \<or> \<not> (beg \<noteq> [] \<and> k < beg)"
  let ?F = "\<lambda>(k :: key, v :: bytes). \<not> (end_k \<noteq> [] \<and> k = end_k)"
  have s: "sorted_wrt ?R (rev kvs)"
    using assms(1) by (simp add: sorted_wrt_map sorted_wrt_rev)
  have d: "dropWhile ?D (rev kvs) = filter (\<lambda>x. \<not> ?D x) (rev kvs)"
    by (rule sorted_wrt_dropWhile_filter [OF s]) auto
  have s': "sorted_wrt ?R (if end_k \<noteq> [] then filter (\<lambda>x. \<not> ?D x) (rev kvs) else rev kvs)"
    using s by (simp add: sorted_wrt_filter)
  have "takeWhile ?T (if end_k \<noteq> [] then dropWhile ?D (rev kvs) else rev kvs)
      = filter ?T (if end_k \<noteq> [] then filter (\<lambda>x. \<not> ?D x) (rev kvs) else rev kvs)"
    unfolding d using assms(2) by (intro sorted_wrt_takeWhile_filter [OF s']) auto
  then have "filter ?F (takeWhile ?T (if end_k \<noteq> [] then dropWhile ?D (rev kvs) else rev kvs))
      = filter ?F (filter ?T (if end_k \<noteq> [] then filter (\<lambda>x. \<not> ?D x) (rev kvs) else rev kvs))"
    by simp
  also have "\<dots> = filter (\<lambda>(k, v). in_range beg end_k k) (rev kvs)"
    using assms(2) by (auto simp: in_range_def intro!: filter_cong)
  finally show ?thesis by (simp add: rev_filter)
qed

lemma in_range_invalid: "beg > end_k \<Longrightarrow> end_k \<noteq> [] \<Longrightarrow> \<not> in_range beg end_k k"
  by (auto simp: in_range_def)

lemma map_fst_pairs: "map fst (pairs kvs) = map fst kvs"
  by (simp add: pairs_def case_prod_unfold comp_def)

subsection \<open>The concrete run\<close>

lemma demo_begin_eq:
  "demo_begin = (Transaction \<lparr>db = Some demo_db, tx = 0\<rparr>,
     \<lparr>rw_store = demo_kvs, rw_txns =
        [\<lparr>rt_update = True, rt_finished = False, rt_working = demo_kvs, rt_writes = []\<rparr>]\<rparr>)"
  by (simp add: demo_begin_def Database_NewTransaction_def ref_engine_def
      ref_NewTransaction_def ref_open_def)

lemma demo_begin_iterator:
  "badger_NewIterator ref_engine (snd demo_begin) (tx (Transaction_txn (fst demo_begin)))
     = Some (stored demo_kvs)"
  by (simp add: demo_begin_eq ref_engine_def ref_NewIterator_def)

lemma demo_kvs_sorted: "sorted_wrt (<) (map fst demo_kvs)"
  by (simp add: demo_kvs_def)

lemma demo_snapshot_eq:
  "demo_snapshot = (Snapshot \<lparr>db = Some demo_db, tx = 0\<rparr>,
     \<lparr>rw_store = demo_kvs, rw_txns =
        [\<lparr>rt_update = False, rt_finished = False, rt_working = demo_kvs, rt_writes = []\<rparr>]\<rparr>)"
  by (simp add: demo_snapshot_def Database_NewSnapshot_def ref_engine_def
      ref_NewTransaction_def ref_open_def)

lemma demo_rolled_back_eq:
  "demo_rolled_back = (None, Transaction \<lparr>db = None, tx = 0\<rparr>,
     \<lparr>rw_store = demo_kvs, rw_txns =
        [\<lparr>rt_update = True, rt_finished = True, rt_working = demo_kvs, rt_writes = []\<rparr>]\<rparr>)"
  by (simp add: demo_rolled_back_def demo_begin_eq Transaction_Rollback_def txn_discard_def
      ref_engine_def ref_Discard_def)

text \<open>The transaction of the concrete run after \<open>Delete("a")\<close>.\<close>

lemma demo_delete_a:
  "txn_Delete ref_engine (Transaction_txn (fst demo_begin)) (snd demo_begin) ''a'' =
     (None, \<lparr>rw_store = demo_kvs, rw_txns =
        [\<lparr>rt_update = True, rt_finished = False,
          rt_working = [(''b'', ''2''), (''c'', ''3''), (''d'', ''4''), (''e'', ''5'')],
          rt_writes = [(''a'', None)]\<rparr>]\<rparr>)"
  by (simp add: demo_begin_eq txn_Delete_def ref_engine_def ref_Delete_def ref_modify_def
      remove_key_def demo_kvs_def)

subsection \<open>The reference engine\<close>

lemma map_of_upsert: "map_of (upsert k v xs) k = Some v"
  by (induction xs) auto

lemma ref_engine_read_your_writes: "read_your_writes ref_engine"
  unfolding read_your_writes_def
proof (intro allI impI)
  fix w x k data w'
  assume "badger_Set ref_engine w x k data = (None, w')"
  then have m: "ref_modify w x k (Some data) = (None, w')"
    by (simp add: ref_engine_def ref_Set_def)
  then have c: "x < length (rw_txns w)" "\<not> rt_finished (rw_txns w ! x)" "k \<noteq> []"
    by (auto simp: ref_modify_def split: if_splits)
  from m c have w': "w' = w\<lparr>rw_txns := (rw_txns w)[x := (rw_txns w ! x)
              \<lparr>rt_working := upsert k data (rt_working (rw_txns w ! x)),
               rt_writes := rt_writes (rw_txns w ! x) @ [(k, Some data)]\<rparr>]\<rparr>"
    by (auto simp: ref_modify_def split: if_splits)
  have "ref_Get w' x k = Inr \<lparr>KeyCopy = k, ValueCopy = Inr data\<rparr>"
    using c by (simp add: w' ref_Get_def map_of_upsert)
  then show "\<exists>i. badger_Get ref_engine w' x k = Inr i \<and> ValueCopy i = Inr data"
    by (simp add: ref_engine_def)
qed

text \<open>
  On the reference engine an active read-write transaction accepts every non-empty key
  with every value, and reads the value back.
\<close>

lemma ref_engine_Set_accepts:
  assumes "db t \<noteq> None" and "k \<noteq> []"
      and "tx t < length (rw_txns w)"
      and "rt_update (rw_txns w ! tx t)" and "\<not> rt_finished (rw_txns w ! tx t)"
  shows "fst (txn_Set ref_engine t w k (bytes_NewReader v)) = None
       \<and> txn_Get ref_engine t (snd (txn_Set ref_engine t w k (bytes_NewReader v))) k
           = Inr (bytes_NewReader v)"
proof -
  obtain w' where s: "badger_Set ref_engine w (tx t) k v = (None, w')"
    using assms(2-5) by (simp add: ref_engine_def ref_Set_def ref_modify_def)
  with assms(1) have t: "txn_Set ref_engine t w k (bytes_NewReader v) = (None, w')"
    by (simp add: txn_Set_def bytes_NewReader_def)
  from s ref_engine_read_your_writes
  obtain i where "badger_Get ref_engine w' (tx t) k = Inr i" and "ValueCopy i = Inr v"
    unfolding read_your_writes_def by blast
  then have "txn_Get ref_engine t w' k = Inr (bytes_NewReader v)"
    by (simp add: txn_Get_def)
  with t show ?thesis by simp
qed

section \<open>The claims\<close>

text \<open>
  C1. The claim: on a handle that is done, \<open>Get\<close>, \<open>Set\<close>, \<open>Delete\<close>, \<open>Scan\<close>,
  \<open>Ascend\<close> and \<open>Descend\<close> fail with \<open>ErrTxDone\<close>. The code tests \<open>db = nil\<close> in
  \<open>Set\<close> and \<open>Delete\<close> (and in \<open>Commit\<close> and \<open>discard\<close>) and not in \<open>Get\<close>, \<open>Scan\<close>,
  \<open>Ascend\<close> and \<open>Descend\<close>: these four do on a done handle what they do on an active
  one with the same engine transaction. In the concrete run, \<open>Get("a")\<close> after
  \<open>Rollback\<close> returns the engine's own error for a finished transaction, and \<open>Scan\<close>
  panics where the engine refuses the cursor.
\<close>

theorem C1_done_handle:
  "txn_Get E (t\<lparr>db := None\<rparr>) w k = txn_Get E t w k
   \<and> txn_Scan E (t\<lparr>db := None\<rparr>) w yield s = txn_Scan E t w yield s
   \<and> txn_Ascend E (t\<lparr>db := None\<rparr>) w beg end_k yield s = txn_Ascend E t w beg end_k yield s
   \<and> txn_Descend E (t\<lparr>db := None\<rparr>) w beg end_k yield s = txn_Descend E t w beg end_k yield s
   \<and> txn_Set E (t\<lparr>db := None\<rparr>) w k v = (Some ErrTxDone, w)
   \<and> txn_Delete E (t\<lparr>db := None\<rparr>) w k = (Some ErrTxDone, w)
   \<and> fst demo_rolled_back = None
   \<and> db (Transaction_txn (fst (snd demo_rolled_back))) = None
   \<and> txn_Get ref_engine (Transaction_txn (fst (snd demo_rolled_back)))
        (snd (snd demo_rolled_back)) ''a'' = Inl (Engine ErrDiscardedTxn)
   \<and> txn_Scan ref_engine (Transaction_txn (fst (snd demo_rolled_back)))
        (snd (snd demo_rolled_back)) collect [] = (Some (Panic ''NewIterator''), [])"
proof -
  have "txn_Get ref_engine (Transaction_txn (fst (snd demo_rolled_back)))
        (snd (snd demo_rolled_back)) ''a'' = Inl (Engine ErrDiscardedTxn)"
    by (simp add: txn_Get_def demo_rolled_back_eq ref_engine_def ref_Get_def
        ErrDiscardedTxn_def)
  moreover have "txn_Scan ref_engine (Transaction_txn (fst (snd demo_rolled_back)))
        (snd (snd demo_rolled_back)) collect [] = (Some (Panic ''NewIterator''), [])"
    by (simp add: txn_Scan_def demo_rolled_back_eq ref_engine_def NewIterator_def
        ref_NewIterator_def)
  ultimately show ?thesis
    by (simp add: txn_Get_def txn_Scan_def txn_Ascend_def txn_Descend_def txn_Set_def
        txn_Delete_def demo_rolled_back_eq)
qed

text \<open>
  C2. The claim: \<open>Get\<close>, \<open>Set\<close> and \<open>Delete\<close> with an empty key fail with
  \<open>ErrInvalid\<close>, on every handle type. The code tests the key nowhere, although
  \<open>Ascend\<close> and \<open>Descend\<close> do answer an invalid argument with \<open>ErrInvalid\<close>: the
  empty key goes to the engine. In the concrete run, on an active transaction and on
  an active snapshot, each call returns the engine's own error for the empty key, and
  not \<open>ErrInvalid\<close>.
\<close>

theorem C2_empty_key_not_invalid:
  "db (Transaction_txn (fst demo_begin)) \<noteq> None
   \<and> txn_Get ref_engine (Transaction_txn (fst demo_begin)) (snd demo_begin) []
       = Inl (Engine ErrEmptyKey)
   \<and> txn_Get ref_engine (Transaction_txn (fst demo_begin)) (snd demo_begin) []
       \<noteq> Inl ErrInvalid
   \<and> fst (txn_Set ref_engine (Transaction_txn (fst demo_begin)) (snd demo_begin) []
        (bytes_NewReader ''v'')) = Some (Engine ErrEmptyKey)
   \<and> fst (txn_Set ref_engine (Transaction_txn (fst demo_begin)) (snd demo_begin) []
        (bytes_NewReader ''v'')) \<noteq> Some ErrInvalid
   \<and> fst (txn_Delete ref_engine (Transaction_txn (fst demo_begin)) (snd demo_begin) [])
       = Some (Engine ErrEmptyKey)
   \<and> fst (txn_Delete ref_engine (Transaction_txn (fst demo_begin)) (snd demo_begin) [])
       \<noteq> Some ErrInvalid
   \<and> db (Snapshot_txn (fst demo_snapshot)) \<noteq> None
   \<and> txn_Get ref_engine (Snapshot_txn (fst demo_snapshot)) (snd demo_snapshot) []
       = Inl (Engine ErrEmptyKey)
   \<and> txn_Get ref_engine (Snapshot_txn (fst demo_snapshot)) (snd demo_snapshot) []
       \<noteq> Inl ErrInvalid"
proof -
  have g: "txn_Get ref_engine (Transaction_txn (fst demo_begin)) (snd demo_begin) []
       = Inl (Engine ErrEmptyKey)"
    by (simp add: demo_begin_eq txn_Get_def ref_engine_def ref_Get_def ErrEmptyKey_def)
  have s: "fst (txn_Set ref_engine (Transaction_txn (fst demo_begin)) (snd demo_begin) []
        (bytes_NewReader ''v'')) = Some (Engine ErrEmptyKey)"
    by (simp add: demo_begin_eq txn_Set_def bytes_NewReader_def ref_engine_def ref_Set_def
        ref_modify_def)
  have d: "fst (txn_Delete ref_engine (Transaction_txn (fst demo_begin)) (snd demo_begin) [])
       = Some (Engine ErrEmptyKey)"
    by (simp add: demo_begin_eq txn_Delete_def ref_engine_def ref_Delete_def ref_modify_def
        ErrEmptyKey_def)
  have g': "txn_Get ref_engine (Snapshot_txn (fst demo_snapshot)) (snd demo_snapshot) []
       = Inl (Engine ErrEmptyKey)"
    by (simp add: demo_snapshot_eq txn_Get_def ref_engine_def ref_Get_def ErrEmptyKey_def)
  show ?thesis
    unfolding g s d g' by (simp add: demo_begin_eq demo_snapshot_eq)
qed

text \<open>
  C3. \<open>Descend(begin, end)\<close> yields exactly the visible pairs whose key is in
  \<open>[begin, end)\<close>, in strictly decreasing key order. Here \<open>kvs\<close> are the pairs the
  handle sees, in strictly increasing key order, and the consumer takes every pair.
  An empty \<open>end\<close> is no upper bound. With \<open>begin > end\<close> and \<open>end\<close> non-empty the
  range is empty and nothing is yielded.
\<close>

theorem C3_Descend_range:
  assumes "sorted_wrt (<) (map fst kvs)"
      and "badger_NewIterator E w (tx t) = Some (stored kvs)"
  shows "snd (txn_Descend E t w beg end_k collect [])
           = pairs (rev (filter (\<lambda>(k, v). in_range beg end_k k) kvs))
       \<and> sorted_wrt (>) (map fst (snd (txn_Descend E t w beg end_k collect [])))"
proof -
  have eq: "snd (txn_Descend E t w beg end_k collect [])
           = pairs (rev (filter (\<lambda>(k, v). in_range beg end_k k) kvs))"
  proof (cases "beg > end_k \<and> end_k \<noteq> []")
    case True
    then have "filter (\<lambda>(k, v). in_range beg end_k k) kvs = []"
      by (auto simp: filter_empty_conv in_range_invalid)
    with True show ?thesis
      by (simp add: txn_Descend_def pairs_def)
  next
    case False
    show ?thesis
      by (simp only: txn_Descend_collect [OF assms(2) False] descend_range [OF assms(1) False] snd_conv)
  qed
  have "sorted_wrt (<) (map fst (filter (\<lambda>(k, v). in_range beg end_k k) kvs))"
    using assms(1) by (simp add: sorted_wrt_map sorted_wrt_filter)
  then have "sorted_wrt (>) (map fst (rev (filter (\<lambda>(k, v). in_range beg end_k k) kvs)))"
    by (simp add: rev_map [symmetric] sorted_wrt_rev del: rev_map)
  with eq show ?thesis
    by (simp add: map_fst_pairs)
qed

text \<open>
  C3 on the spec's example: \<open>Descend("b", "d")\<close> over the keys \<open>a\<close> to \<open>e\<close> yields
  \<open>c, b\<close>.
\<close>

theorem C3_Descend_range_witness:
  "sorted_wrt (<) (map fst demo_kvs)
   \<and> badger_NewIterator ref_engine (snd demo_begin) (tx (Transaction_txn (fst demo_begin)))
       = Some (stored demo_kvs)
   \<and> snd (txn_Descend ref_engine (Transaction_txn (fst demo_begin)) (snd demo_begin)
            ''b'' ''d'' collect [])
       = [(''c'', Reader ''3'' None), (''b'', Reader ''2'' None)]"
proof -
  have "snd (txn_Descend ref_engine (Transaction_txn (fst demo_begin)) (snd demo_begin)
            ''b'' ''d'' collect [])
       = pairs (rev (filter (\<lambda>(k, v). in_range ''b'' ''d'' k) demo_kvs))"
    using C3_Descend_range [OF demo_kvs_sorted demo_begin_iterator] by simp
  also have "\<dots> = [(''c'', Reader ''3'' None), (''b'', Reader ''2'' None)]"
    by (simp add: demo_kvs_def in_range_def pairs_def bytes_NewReader_def)
  finally show ?thesis
    using demo_kvs_sorted demo_begin_iterator by simp
qed

text \<open>
  C4. \<open>Ascend(begin, end)\<close> yields exactly the visible pairs whose key is in
  \<open>[begin, end)\<close>, in strictly increasing key order, under the same reading of the
  bounds as for C3.
\<close>

theorem C4_Ascend_range:
  assumes "sorted_wrt (<) (map fst kvs)"
      and "badger_NewIterator E w (tx t) = Some (stored kvs)"
  shows "snd (txn_Ascend E t w beg end_k collect [])
           = pairs (filter (\<lambda>(k, v). in_range beg end_k k) kvs)
       \<and> sorted_wrt (<) (map fst (snd (txn_Ascend E t w beg end_k collect [])))"
proof -
  have eq: "snd (txn_Ascend E t w beg end_k collect [])
           = pairs (filter (\<lambda>(k, v). in_range beg end_k k) kvs)"
  proof (cases "beg > end_k \<and> end_k \<noteq> []")
    case True
    then have "filter (\<lambda>(k, v). in_range beg end_k k) kvs = []"
      by (auto simp: filter_empty_conv in_range_invalid)
    with True show ?thesis
      by (simp add: txn_Ascend_def pairs_def)
  next
    case False
    show ?thesis
      by (simp only: txn_Ascend_collect [OF assms(2) False] ascend_range [OF assms(1) False] snd_conv)
  qed
  have "sorted_wrt (<) (map fst (filter (\<lambda>(k, v). in_range beg end_k k) kvs))"
    using assms(1) by (simp add: sorted_wrt_map sorted_wrt_filter)
  with eq show ?thesis
    by (simp add: map_fst_pairs)
qed

text \<open>
  C4 on the spec's example: \<open>Ascend("b", "d")\<close> over the keys \<open>a\<close> to \<open>e\<close> yields
  \<open>b, c\<close>.
\<close>

theorem C4_Ascend_range_witness:
  "sorted_wrt (<) (map fst demo_kvs)
   \<and> badger_NewIterator ref_engine (snd demo_begin) (tx (Transaction_txn (fst demo_begin)))
       = Some (stored demo_kvs)
   \<and> snd (txn_Ascend ref_engine (Transaction_txn (fst demo_begin)) (snd demo_begin)
            ''b'' ''d'' collect [])
       = [(''b'', Reader ''2'' None), (''c'', Reader ''3'' None)]"
proof -
  have "snd (txn_Ascend ref_engine (Transaction_txn (fst demo_begin)) (snd demo_begin)
            ''b'' ''d'' collect [])
       = pairs (filter (\<lambda>(k, v). in_range ''b'' ''d'' k) demo_kvs)"
    using C4_Ascend_range [OF demo_kvs_sorted demo_begin_iterator] by simp
  also have "\<dots> = [(''b'', Reader ''2'' None), (''c'', Reader ''3'' None)]"
    by (simp add: demo_kvs_def in_range_def pairs_def bytes_NewReader_def)
  finally show ?thesis
    using demo_kvs_sorted demo_begin_iterator by simp
qed

text \<open>
  C5. When \<open>begin\<close> and \<open>end\<close> are both non-empty and \<open>begin > end\<close>, \<open>Ascend\<close> and
  \<open>Descend\<close> store \<open>ErrInvalid\<close> in the error slot and never call the consumer:
  the consumer's state is returned as it was, whatever the consumer and the engine are.
\<close>

theorem C5_invalid_range:
  assumes "beg \<noteq> []" and "end_k \<noteq> []" and "beg > end_k"
  shows "txn_Ascend E t w beg end_k yield s = (Some ErrInvalid, s)
       \<and> txn_Descend E t w beg end_k yield s = (Some ErrInvalid, s)"
  using assms by (simp add: txn_Ascend_def txn_Descend_def)

text \<open>C5 at \<open>begin = "d"\<close>, \<open>end = "b"\<close>.\<close>

theorem C5_invalid_range_witness:
  "''d'' \<noteq> [] \<and> ''b'' \<noteq> [] \<and> ''d'' > ''b''
   \<and> txn_Ascend ref_engine (Transaction_txn (fst demo_begin)) (snd demo_begin)
        ''d'' ''b'' collect [] = (Some ErrInvalid, [])
   \<and> txn_Descend ref_engine (Transaction_txn (fst demo_begin)) (snd demo_begin)
        ''d'' ''b'' collect [] = (Some ErrInvalid, [])"
proof -
  have h: "''d'' \<noteq> []" "''b'' \<noteq> []" "''d'' > ''b''" by simp_all
  show ?thesis
    using h C5_invalid_range [OF h, of ref_engine "Transaction_txn (fst demo_begin)"
        "snd demo_begin" collect "[]"]
    by blast
qed

text \<open>
  C6. After any \<open>Commit\<close>, and after any \<open>Rollback\<close>, the handle is done, and a
  further \<open>Commit\<close> or \<open>Rollback\<close> returns \<open>ErrTxDone\<close> and leaves the handle and the
  engine as they were: the engine's commit and discard are not called again.
\<close>

theorem C6_finish_once:
  "(case txn_Commit E t w of (r, t', w') \<Rightarrow>
       db t' = None
     \<and> txn_Commit E t' w' = (Some ErrTxDone, t', w')
     \<and> Transaction_Rollback E (Transaction t') w' = (Some ErrTxDone, Transaction t', w'))
 \<and> (case Transaction_Rollback E (Transaction t) w of (r, h', w') \<Rightarrow>
       db (Transaction_txn h') = None
     \<and> txn_Commit E (Transaction_txn h') w' = (Some ErrTxDone, Transaction_txn h', w')
     \<and> Transaction_Rollback E h' w' = (Some ErrTxDone, h', w'))"
  by (simp add: txn_Commit_def txn_discard_def Transaction_Rollback_def split: prod.split)

text \<open>
  C7. The claim: on an active transaction \<open>Set\<close> with a nil value stream fails with
  \<open>ErrInvalid\<close>, and a zero-length stream is accepted. The code does not test the
  stream: \<open>io.ReadAll\<close> is called on the nil reader, and the call panics. The second
  half holds: in the concrete run the zero-length value is stored and read back.
\<close>

theorem C7_nil_value_panics:
  "db (Transaction_txn (fst demo_begin)) \<noteq> None
   \<and> txn_Set ref_engine (Transaction_txn (fst demo_begin)) (snd demo_begin) ''k'' NilReader
       = (Some (Panic ''nil pointer dereference''), snd demo_begin)
   \<and> fst (txn_Set ref_engine (Transaction_txn (fst demo_begin)) (snd demo_begin) ''k'' NilReader)
       \<noteq> Some ErrInvalid
   \<and> fst (txn_Set ref_engine (Transaction_txn (fst demo_begin)) (snd demo_begin) ''k''
        (Reader [] None)) = None
   \<and> txn_Get ref_engine (Transaction_txn (fst demo_begin))
        (snd (txn_Set ref_engine (Transaction_txn (fst demo_begin)) (snd demo_begin) ''k''
           (Reader [] None))) ''k'' = Inr (Reader [] None)"
proof -
  have n: "txn_Set ref_engine (Transaction_txn (fst demo_begin)) (snd demo_begin) ''k'' NilReader
       = (Some (Panic ''nil pointer dereference''), snd demo_begin)"
    by (simp add: demo_begin_eq txn_Set_def)
  have a: "db (Transaction_txn (fst demo_begin)) \<noteq> None"
    by (simp add: demo_begin_eq)
  have z: "fst (txn_Set ref_engine (Transaction_txn (fst demo_begin)) (snd demo_begin) ''k''
        (bytes_NewReader [])) = None
     \<and> txn_Get ref_engine (Transaction_txn (fst demo_begin))
        (snd (txn_Set ref_engine (Transaction_txn (fst demo_begin)) (snd demo_begin) ''k''
           (bytes_NewReader []))) ''k'' = Inr (bytes_NewReader [])"
    by (rule ref_engine_Set_accepts) (simp_all add: demo_begin_eq)
  from n a z show ?thesis
    by (simp add: bytes_NewReader_def)
qed

text \<open>
  C8. \<open>Get\<close> fails with \<open>ErrNotExist\<close> exactly when the engine reports that the
  handle sees no entry for the key (\<open>ErrKeyNotFound\<close>, possibly wrapped); on an active
  handle \<open>Delete\<close> fails with \<open>ErrNotExist\<close> exactly when the engine's delete reports
  the same. The adapter neither makes the signal up nor drops it.
\<close>

theorem C8_not_found_passthrough:
  "(txn_Get E t w k = Inl ErrNotExist \<longleftrightarrow>
      (\<exists>e. badger_Get E w (tx t) k = Inl e \<and> errors_Is_ErrKeyNotFound e))
   \<and> (db t \<noteq> None \<longrightarrow>
       (fst (txn_Delete E t w k) = Some ErrNotExist \<longleftrightarrow>
          (\<exists>e. fst (badger_Delete E w (tx t) k) = Some e \<and> errors_Is_ErrKeyNotFound e)))"
proof -
  have g: "txn_Get E t w k = Inl ErrNotExist \<longleftrightarrow>
      (\<exists>e. badger_Get E w (tx t) k = Inl e \<and> errors_Is_ErrKeyNotFound e)"
    by (auto simp: txn_Get_def split: sum.splits)
  have d: "fst (txn_Delete E t w k) = Some ErrNotExist \<longleftrightarrow>
          (\<exists>e. fst (badger_Delete E w (tx t) k) = Some e \<and> errors_Is_ErrKeyNotFound e)"
    if "db t \<noteq> None"
    using that
    by (cases "badger_Delete E w (tx t) k") (auto simp: txn_Delete_def split: option.splits)
  from g d show ?thesis by blast
qed

text \<open>
  C8 in the concrete run: a key never written and a key deleted in the transaction are
  not found, a stored key is found, and deleting an absent key, which the engine does
  not report, does not fail with \<open>ErrNotExist\<close>.
\<close>

theorem C8_not_found_passthrough_witness:
  "txn_Get ref_engine (Transaction_txn (fst demo_begin)) (snd demo_begin) ''zz'' = Inl ErrNotExist
   \<and> txn_Get ref_engine (Transaction_txn (fst demo_begin))
        (snd (txn_Delete ref_engine (Transaction_txn (fst demo_begin)) (snd demo_begin) ''a''))
        ''a'' = Inl ErrNotExist
   \<and> txn_Get ref_engine (Transaction_txn (fst demo_begin)) (snd demo_begin) ''a''
        = Inr (Reader ''1'' None)
   \<and> db (Transaction_txn (fst demo_begin)) \<noteq> None
   \<and> fst (txn_Delete ref_engine (Transaction_txn (fst demo_begin)) (snd demo_begin) ''zz'')
        \<noteq> Some ErrNotExist"
proof -
  let ?t = "Transaction_txn (fst demo_begin)"
  let ?w = "snd demo_begin"
  let ?w' = "snd (txn_Delete ref_engine ?t ?w ''a'')"
  have 1: "badger_Get ref_engine ?w (tx ?t) ''zz'' = Inl ErrKeyNotFound"
    by (simp add: demo_begin_eq ref_engine_def ref_Get_def demo_kvs_def)
  have 2: "badger_Get ref_engine ?w' (tx ?t) ''a'' = Inl ErrKeyNotFound"
    by (simp add: demo_delete_a) (simp add: demo_begin_eq ref_engine_def ref_Get_def)
  have 3: "txn_Get ref_engine ?t ?w ''a'' = Inr (Reader ''1'' None)"
    by (simp add: demo_begin_eq txn_Get_def ref_engine_def ref_Get_def demo_kvs_def
        bytes_NewReader_def)
  have 4: "db ?t \<noteq> None"
    by (simp add: demo_begin_eq)
  have 5: "fst (badger_Delete ref_engine ?w (tx ?t) ''zz'') = None"
    by (simp add: demo_begin_eq ref_engine_def ref_Delete_def ref_modify_def)
  have a: "txn_Get ref_engine ?t ?w ''zz'' = Inl ErrNotExist"
    using C8_not_found_passthrough [of ref_engine ?t ?w "''zz''"] 1 by simp
  have b: "txn_Get ref_engine ?t ?w' ''a'' = Inl ErrNotExist"
    using C8_not_found_passthrough [of ref_engine ?t ?w' "''a''"] 2 by simp
  have c: "fst (txn_Delete ref_engine ?t ?w ''zz'') \<noteq> Some ErrNotExist"
    using C8_not_found_passthrough [of ref_engine ?t ?w "''zz''"] 4 5 by simp
  from a b 3 4 c show ?thesis by blast
qed

text \<open>
  C9. On an active transaction, whenever the engine accepts the write of \<open>v\<close> under
  \<open>k\<close>, \<open>Set(k, v)\<close> succeeds and \<open>Get(k)\<close> then returns a reader of exactly \<open>v\<close>,
  over every engine in which a transaction reads its own writes: the adapter passes
  the key and the bytes of the value through unchanged in both directions, and
  refuses nothing itself. On the reference engine an active read-write transaction
  accepts every non-empty key with every value, so there \<open>Set\<close> then \<open>Get\<close> returns
  \<open>v\<close> for all of them.
\<close>

theorem C9_Set_then_Get:
  "(read_your_writes E \<longrightarrow> db t \<noteq> None \<longrightarrow> badger_Set E w (tx t) k v = (None, w') \<longrightarrow>
      txn_Set E t w k (bytes_NewReader v) = (None, w')
      \<and> txn_Get E t w' k = Inr (bytes_NewReader v))
   \<and> (k \<noteq> [] \<longrightarrow> db t \<noteq> None \<longrightarrow> tx t < length (rw_txns rw) \<longrightarrow>
      rt_update (rw_txns rw ! tx t) \<longrightarrow> \<not> rt_finished (rw_txns rw ! tx t) \<longrightarrow>
      fst (txn_Set ref_engine t rw k (bytes_NewReader v)) = None
      \<and> txn_Get ref_engine t (snd (txn_Set ref_engine t rw k (bytes_NewReader v))) k
          = Inr (bytes_NewReader v))"
proof -
  have generic: "txn_Set E t w k (bytes_NewReader v) = (None, w')
      \<and> txn_Get E t w' k = Inr (bytes_NewReader v)"
    if ryw: "read_your_writes E" and active: "db t \<noteq> None"
      and accepted: "badger_Set E w (tx t) k v = (None, w')"
  proof -
    from active accepted have s: "txn_Set E t w k (bytes_NewReader v) = (None, w')"
      by (simp add: txn_Set_def bytes_NewReader_def)
    from ryw accepted obtain i
      where "badger_Get E w' (tx t) k = Inr i" and "ValueCopy i = Inr v"
      unfolding read_your_writes_def by blast
    then have "txn_Get E t w' k = Inr (bytes_NewReader v)"
      by (simp add: txn_Get_def)
    with s show ?thesis by simp
  qed
  have reference: "fst (txn_Set ref_engine t rw k (bytes_NewReader v)) = None
      \<and> txn_Get ref_engine t (snd (txn_Set ref_engine t rw k (bytes_NewReader v))) k
          = Inr (bytes_NewReader v)"
    if "k \<noteq> []" and "db t \<noteq> None" and "tx t < length (rw_txns rw)"
      and "rt_update (rw_txns rw ! tx t)" and "\<not> rt_finished (rw_txns rw ! tx t)"
    using that by (intro ref_engine_Set_accepts)
  from generic reference show ?thesis by blast
qed

text \<open>
  C9 in the concrete run: a new key with a non-empty value, by the first part, and a
  stored key overwritten with the zero-length value, by the second.
\<close>

theorem C9_Set_then_Get_witness:
  "read_your_writes ref_engine
   \<and> db (Transaction_txn (fst demo_begin)) \<noteq> None
   \<and> fst (badger_Set ref_engine (snd demo_begin) (tx (Transaction_txn (fst demo_begin)))
        ''k'' ''some value'') = None
   \<and> fst (txn_Set ref_engine (Transaction_txn (fst demo_begin)) (snd demo_begin) ''k''
        (bytes_NewReader ''some value'')) = None
   \<and> txn_Get ref_engine (Transaction_txn (fst demo_begin))
        (snd (txn_Set ref_engine (Transaction_txn (fst demo_begin)) (snd demo_begin) ''k''
           (bytes_NewReader ''some value''))) ''k'' = Inr (bytes_NewReader ''some value'')
   \<and> fst (txn_Set ref_engine (Transaction_txn (fst demo_begin)) (snd demo_begin) ''a''
        (bytes_NewReader [])) = None
   \<and> txn_Get ref_engine (Transaction_txn (fst demo_begin))
        (snd (txn_Set ref_engine (Transaction_txn (fst demo_begin)) (snd demo_begin) ''a''
           (bytes_NewReader []))) ''a'' = Inr (bytes_NewReader [])"
proof -
  let ?t = "Transaction_txn (fst demo_begin)"
  let ?w = "snd demo_begin"
  let ?e = "badger_Set ref_engine ?w (tx ?t) ''k'' ''some value''"
  have a: "db ?t \<noteq> None"
    by (simp add: demo_begin_eq)
  have f: "fst ?e = None"
    by (simp add: demo_begin_eq ref_engine_def ref_Set_def ref_modify_def)
  then have e: "?e = (None, snd ?e)"
    by (metis prod.collapse)
  note g = C9_Set_then_Get [where E = ref_engine and t = ?t and w = ?w and k = "''k''"
      and v = "''some value''" and w' = "snd ?e", THEN conjunct1, rule_format,
      OF ref_engine_read_your_writes a e]
  from g
  have 1: "txn_Set ref_engine ?t ?w ''k'' (bytes_NewReader ''some value'') = (None, snd ?e)"
    and 2: "txn_Get ref_engine ?t (snd ?e) ''k'' = Inr (bytes_NewReader ''some value'')"
    by blast+
  have p: "''a'' \<noteq> []" "tx ?t < length (rw_txns ?w)" "rt_update (rw_txns ?w ! tx ?t)"
    "\<not> rt_finished (rw_txns ?w ! tx ?t)"
    by (simp_all add: demo_begin_eq)
  note r = C9_Set_then_Get [where t = ?t and rw = ?w and k = "''a''" and v = "[]",
      THEN conjunct2, rule_format, OF p(1) a p(2) p(3) p(4)]
  from r
  have 3: "fst (txn_Set ref_engine ?t ?w ''a'' (bytes_NewReader [])) = None"
    and 4: "txn_Get ref_engine ?t (snd (txn_Set ref_engine ?t ?w ''a'' (bytes_NewReader [])))
        ''a'' = Inr (bytes_NewReader [])"
    by blast+
  from ref_engine_read_your_writes a f 1 2 3 4 show ?thesis
    by simp
qed

text \<open>
  C10. A snapshot is a \<open>txn\<close> whose engine transaction was opened read-only, and none
  of \<open>Set\<close>, \<open>Delete\<close> and \<open>Commit\<close> looks at that: on an active snapshot each calls
  the engine and returns the engine's result, and each is the same function of the
  embedded \<open>txn\<close> as on a \<open>Transaction\<close>.
\<close>

theorem C10_snapshot_mutations_forwarded:
  "(case Database_NewSnapshot E d w0 of (h, w1) \<Rightarrow>
       db (Snapshot_txn h) = Some d
     \<and> (tx (Snapshot_txn h), w1) = badger_NewTransaction E w0 False)
   \<and> (db (Snapshot_txn s) \<noteq> None \<longrightarrow>
        txn_Set E (Snapshot_txn s) w k (bytes_NewReader v) =
          (map_option Engine (fst (badger_Set E w (tx (Snapshot_txn s)) k v)),
           snd (badger_Set E w (tx (Snapshot_txn s)) k v))
      \<and> (\<forall>e. fst (badger_Delete E w (tx (Snapshot_txn s)) k) = Some e \<longrightarrow>
             \<not> errors_Is_ErrKeyNotFound e \<longrightarrow>
             fst (txn_Delete E (Snapshot_txn s) w k) = Some (Engine e))
      \<and> (fst (badger_Delete E w (tx (Snapshot_txn s)) k) = None \<longrightarrow>
             fst (txn_Delete E (Snapshot_txn s) w k) = None)
      \<and> snd (txn_Delete E (Snapshot_txn s) w k) = snd (badger_Delete E w (tx (Snapshot_txn s)) k)
      \<and> txn_Commit E (Snapshot_txn s) w =
          (map_option Engine (fst (badger_Commit E w (tx (Snapshot_txn s)))),
           (Snapshot_txn s)\<lparr>db := None\<rparr>,
           snd (badger_Commit E w (tx (Snapshot_txn s)))))
   \<and> txn_Set E (Snapshot_txn s) w k r = txn_Set E (Transaction_txn (Transaction (Snapshot_txn s))) w k r
   \<and> txn_Delete E (Snapshot_txn s) w k = txn_Delete E (Transaction_txn (Transaction (Snapshot_txn s))) w k
   \<and> txn_Commit E (Snapshot_txn s) w = txn_Commit E (Transaction_txn (Transaction (Snapshot_txn s))) w"
proof -
  have n: "(case Database_NewSnapshot E d w0 of (h, w1) \<Rightarrow>
       db (Snapshot_txn h) = Some d
     \<and> (tx (Snapshot_txn h), w1) = badger_NewTransaction E w0 False)"
    by (simp add: Database_NewSnapshot_def split: prod.split)
  have st: "txn_Set E (Snapshot_txn s) w k (bytes_NewReader v) =
          (map_option Engine (fst (badger_Set E w (tx (Snapshot_txn s)) k v)),
           snd (badger_Set E w (tx (Snapshot_txn s)) k v))"
    if "db (Snapshot_txn s) \<noteq> None"
    using that
    by (cases "badger_Set E w (tx (Snapshot_txn s)) k v")
       (auto simp: txn_Set_def bytes_NewReader_def)
  have dl: "(\<forall>e. fst (badger_Delete E w (tx (Snapshot_txn s)) k) = Some e \<longrightarrow>
             \<not> errors_Is_ErrKeyNotFound e \<longrightarrow>
             fst (txn_Delete E (Snapshot_txn s) w k) = Some (Engine e))
      \<and> (fst (badger_Delete E w (tx (Snapshot_txn s)) k) = None \<longrightarrow>
             fst (txn_Delete E (Snapshot_txn s) w k) = None)
      \<and> snd (txn_Delete E (Snapshot_txn s) w k) = snd (badger_Delete E w (tx (Snapshot_txn s)) k)"
    if "db (Snapshot_txn s) \<noteq> None"
    using that
    by (cases "badger_Delete E w (tx (Snapshot_txn s)) k")
       (auto simp: txn_Delete_def split: option.splits)
  have cm: "txn_Commit E (Snapshot_txn s) w =
          (map_option Engine (fst (badger_Commit E w (tx (Snapshot_txn s)))),
           (Snapshot_txn s)\<lparr>db := None\<rparr>,
           snd (badger_Commit E w (tx (Snapshot_txn s))))"
    if "db (Snapshot_txn s) \<noteq> None"
    using that
    by (cases "badger_Commit E w (tx (Snapshot_txn s))") (auto simp: txn_Commit_def)
  from n st dl cm show ?thesis by simp
qed

text \<open>
  C10 in the concrete run: on the snapshot, \<open>Set\<close> and \<open>Delete\<close> return the engine's
  read-only error, and \<open>Commit\<close> succeeds.
\<close>

theorem C10_snapshot_mutations_forwarded_witness:
  "db (Snapshot_txn (fst demo_snapshot)) \<noteq> None
   \<and> txn_Set ref_engine (Snapshot_txn (fst demo_snapshot)) (snd demo_snapshot) ''k''
        (bytes_NewReader ''v'') = (Some (Engine ErrReadOnlyTxn), snd demo_snapshot)
   \<and> fst (txn_Delete ref_engine (Snapshot_txn (fst demo_snapshot)) (snd demo_snapshot) ''a'')
        = Some (Engine ErrReadOnlyTxn)
   \<and> fst (txn_Commit ref_engine (Snapshot_txn (fst demo_snapshot)) (snd demo_snapshot)) = None"
proof -
  let ?t = "Snapshot_txn (fst demo_snapshot)"
  let ?w = "snd demo_snapshot"
  have a: "db ?t \<noteq> None"
    by (simp add: demo_snapshot_eq)
  have s: "badger_Set ref_engine ?w (tx ?t) ''k'' ''v'' = (Some ErrReadOnlyTxn, ?w)"
    by (simp add: demo_snapshot_eq ref_engine_def ref_Set_def ref_modify_def)
  have d: "fst (badger_Delete ref_engine ?w (tx ?t) ''a'') = Some ErrReadOnlyTxn"
    by (simp add: demo_snapshot_eq ref_engine_def ref_Delete_def ref_modify_def)
  have n: "\<not> errors_Is_ErrKeyNotFound ErrReadOnlyTxn"
    by (simp add: ErrReadOnlyTxn_def)
  have c: "fst (badger_Commit ref_engine ?w (tx ?t)) = None"
    by (simp add: demo_snapshot_eq ref_engine_def ref_Commit_def)
  from C10_snapshot_mutations_forwarded [where E = ref_engine and s = "fst demo_snapshot"
      and w = ?w and k = "''k''" and v = "''v''"]
  have f: "txn_Set ref_engine ?t ?w ''k'' (bytes_NewReader ''v'') =
          (map_option Engine (fst (badger_Set ref_engine ?w (tx ?t) ''k'' ''v'')),
           snd (badger_Set ref_engine ?w (tx ?t) ''k'' ''v''))"
    and g: "\<forall>e. fst (badger_Delete ref_engine ?w (tx ?t) ''k'') = Some e \<longrightarrow>
             \<not> errors_Is_ErrKeyNotFound e \<longrightarrow>
             fst (txn_Delete ref_engine ?t ?w ''k'') = Some (Engine e)"
    and h: "txn_Commit ref_engine ?t ?w =
          (map_option Engine (fst (badger_Commit ref_engine ?w (tx ?t))),
           ?t\<lparr>db := None\<rparr>, snd (badger_Commit ref_engine ?w (tx ?t)))"
    using a by blast+
  from C10_snapshot_mutations_forwarded [where E = ref_engine and s = "fst demo_snapshot"
      and w = ?w and k = "''a''" and v = "''v''"] a d n
  have g': "fst (txn_Delete ref_engine ?t ?w ''a'') = Some (Engine ErrReadOnlyTxn)"
    by blast
  from a f s g' h c show ?thesis by simp
qed

end
